theory Spec2Isabelle
  imports Main
begin

section \<open>The comparison-series controller\<close>

text \<open>
  A shallow embedding of \<^verbatim>\<open>ComparisonSeries.tsx\<close>: the React component that drives a bounded
  series of pairwise comparisons. The component's five \<^verbatim>\<open>useState\<close> cells are one record,
  its handlers are functions from the state of the render they close over to the state
  their setters leave, and its JSX is a function from properties and state to a view.

  JavaScript numbers are read as mathematical integers (\<open>step\<close> only ever holds a count of
  submissions), and strings as character lists.
\<close>

subsection \<open>Data\<close>

text \<open>
  \<^verbatim>\<open>Entity\<close> is declared in \<^verbatim>\<open>src/services/openapi\<close>; the controller reads its \<^verbatim>\<open>uid\<close> only.
  Everything else an entity carries is rendering metadata, kept opaque.
\<close>

record entity =
  uid :: string
  metadata :: string

text \<open>One entry of the \<^verbatim>\<open>dialogs\<close> property: \<^verbatim>\<open>{ title: string; messages: Array<string> }\<close>.\<close>

record dialog =
  title :: string
  messages :: "string list"

text \<open>
  What a promise comes to: it is fulfilled with a value, it is rejected, or it never
  settles.
\<close>

datatype 'a promise = Fulfilled 'a | Rejected | Pending

text \<open>
  The component's \<^verbatim>\<open>Props\<close>. Both \<^verbatim>\<open>dialogs\<close> and \<^verbatim>\<open>getAlternatives\<close> are optional (\<open>None\<close> is
  \<^verbatim>\<open>undefined\<close>). The \<^verbatim>\<open>dialogs\<close> object is a map from step numbers to dialogs: the number
  \<open>k\<close> stands for the property key \<^verbatim>\<open>String(k)\<close> that \<^verbatim>\<open>k in dialogs\<close> looks up.
  \<^verbatim>\<open>getAlternatives\<close>, when given, is what the promise it returns comes to. The property
  \<^verbatim>\<open>length\<close> is named \<open>length_prop\<close> here, apart from the length of lists.
\<close>

record props =
  dialogs :: "(int \<rightharpoonup> dialog) option"
  getAlternatives :: "entity list promise option"
  length_prop :: int

text \<open>The five state cells of the component, in the order of their \<^verbatim>\<open>useState\<close> calls.\<close>

record series_state =
  step :: int
  dialogOpen :: bool
  refreshLeft :: bool
  alternatives :: "entity list"
  comparisonsMade :: "string list"

text \<open>
  The object \<^verbatim>\<open>{ uid, refreshLeft }\<close> that \<^verbatim>\<open>afterSubmitCallback\<close> returns. Its fields carry the
  prefix \<open>next_\<close>, apart from the entity's \<open>uid\<close> and the state's \<open>refreshLeft\<close>.
\<close>

record next_step =
  next_uid :: string
  next_refreshLeft :: bool

datatype error = EmptyPoolError

definition MIN_LENGTH :: int where
  "MIN_LENGTH = 2"

subsection \<open>The helpers of \<^verbatim>\<open>src/utils/entity\<close>\<close>

text \<open>
  Modelled from the spec: the key of a comparison pair, \<^verbatim>\<open>uidA + "/" + uidB\<close>, read back
  into its two members. The module \<^verbatim>\<open>src/utils/entity\<close> is not among the sources; the spec
  (section 3) fixes the key and does not say how it is taken apart. The model cuts it at
  the first \<^verbatim>\<open>/\<close>, which gives back both members whenever the first has no \<^verbatim>\<open>/\<close> in it.
\<close>

definition pairMembers :: "string \<Rightarrow> string \<times> string" where
  "pairMembers key =
     (takeWhile (\<lambda>c. c \<noteq> CHR ''/'') key, drop 1 (dropWhile (\<lambda>c. c \<noteq> CHR ''/'') key))"

text \<open>
  Modelled from the spec: \<^verbatim>\<open>alreadyComparedWith(uid, history)\<close> of \<^verbatim>\<open>src/utils/entity\<close>, which
  is not among the sources. Spec, section 4.2: it scans the history; for every pair that
  contains \<open>uid\<close> it adds the other member of the pair to the result; the result is
  empty when \<open>uid\<close> is in no pair. The result is a list, since the controller appends to
  it with \<^verbatim>\<open>concat\<close>.
\<close>

fun alreadyComparedWith :: "string \<Rightarrow> string list \<Rightarrow> string list" where
  "alreadyComparedWith u [] = []"
| "alreadyComparedWith u (key # history) =
     (let (a, b) = pairMembers key
      in (if a = u then [b] else if b = u then [a] else []) @ alreadyComparedWith u history)"

text \<open>
  Modelled from the spec: \<^verbatim>\<open>selectRandomEntity(pool, excluded)\<close> of \<^verbatim>\<open>src/utils/entity\<close>, which
  is not among the sources. Spec, section 4.1: it fails with an empty-pool error on a pool
  of no entities; otherwise it takes the entities of the pool whose \<open>uid\<close> is not excluded,
  falls back to the whole pool when none is left, and picks one of the candidates at
  random. The random draw is the argument \<open>r\<close>, so that the function is deterministic
  given its random source: among \<open>n\<close> candidates it picks the one at index \<open>r mod n\<close>.
\<close>

definition selectRandomEntity :: "nat \<Rightarrow> entity list \<Rightarrow> string list \<Rightarrow> error + entity" where
  "selectRandomEntity r pool excluded =
     (if pool = [] then Inl EmptyPoolError
      else
        (let eligible = filter (\<lambda>e. uid e \<notin> set excluded) pool;
             candidates = (if eligible = [] then pool else eligible)
         in Inr (candidates ! (r mod length candidates))))"

subsection \<open>The component\<close>

text \<open>The state of the first render: the initial values of the five \<^verbatim>\<open>useState\<close> calls.\<close>

definition initialState :: series_state where
  "initialState =
     \<lparr>step = 0, dialogOpen = True, refreshLeft = False, alternatives = [],
      comparisonsMade = []\<rparr>"

text \<open>The test \<^verbatim>\<open>dialogs && k in dialogs\<close>, made on \<^verbatim>\<open>newStep\<close> by the handler and on \<^verbatim>\<open>step\<close> by the JSX.\<close>

definition dialogConfigured :: "props \<Rightarrow> int \<Rightarrow> bool" where
  "dialogConfigured p k = (case dialogs p of None \<Rightarrow> False | Some d \<Rightarrow> d k \<noteq> None)"

text \<open>
  \<^verbatim>\<open>getAlternativesAsync\<close>, with the promise it returns and the state it leaves. Nothing is
  called when the property is \<^verbatim>\<open>undefined\<close>. Otherwise the function awaits the promise of
  \<^verbatim>\<open>getAlternatives()\<close>: fulfilled, its value is stored when it is not empty; rejected, the
  \<^verbatim>\<open>await\<close> throws and the function's own promise is rejected; pending, the rest of the
  function never runs.
\<close>

definition getAlternativesAsync :: "props \<Rightarrow> series_state \<Rightarrow> unit promise \<times> series_state" where
  "getAlternativesAsync p s =
     (case getAlternatives p of
        None \<Rightarrow> (Fulfilled (), s)
      | Some (Fulfilled alts) \<Rightarrow>
          (Fulfilled (), if length alts > 0 then s\<lparr>alternatives := alts\<rparr> else s)
      | Some Rejected \<Rightarrow> (Rejected, s)
      | Some Pending \<Rightarrow> (Pending, s))"

text \<open>
  The effect \<^verbatim>\<open>useEffect(() => { ...; getAlternativesAsync(); }, [getAlternatives])\<close>: it calls
  the function and drops the promise, so all that is left of the call is the state.
\<close>

definition alternativesEffect :: "props \<Rightarrow> series_state \<Rightarrow> series_state" where
  "alternativesEffect p s = snd (getAlternativesAsync p s)"

text \<open>
  The promise that the effect drops has no handler: \<^verbatim>\<open>getAlternativesAsync()\<close> is called as a
  statement, with no \<^verbatim>\<open>catch\<close> on it and no \<^verbatim>\<open>try\<close> around the \<^verbatim>\<open>await\<close> inside. When
  that promise is rejected the rejection is therefore unhandled, and the host is left to
  report it.
\<close>

definition unhandledRejection :: "props \<Rightarrow> series_state \<Rightarrow> bool" where
  "unhandledRejection p s = (fst (getAlternativesAsync p s) = Rejected)"

text \<open>
  \<^verbatim>\<open>afterSubmitCallback(uidA, uidB)\<close>, as a function of the properties and the state it closes
  over, with the random draw \<open>r\<close> that a call to the sampler consumes. It returns the
  object \<^verbatim>\<open>nextStep\<close> and the state left by its setters, or the error the sampler throws.
\<close>

definition afterSubmitCallback ::
  "props \<Rightarrow> series_state \<Rightarrow> string \<Rightarrow> string \<Rightarrow> nat \<Rightarrow> error + (next_step \<times> series_state)" where
  "afterSubmitCallback p s uidA uidB r =
     (let newStep = step s + 1;
          s1 = (if step s < length_prop p then s\<lparr>step := newStep\<rparr> else s);
          newComparisons = comparisonsMade s @ [uidA @ ''/'' @ uidB];
          s2 = s1\<lparr>comparisonsMade := newComparisons\<rparr>;
          keptUid = (if refreshLeft s then uidB else uidA);
          alreadyCompared = alreadyComparedWith keptUid newComparisons;
          sampled =
            (if length (alternatives s) > 0
             then map_sum id uid
               (selectRandomEntity r (alternatives s) (alreadyCompared @ [keptUid]))
             else Inr '''')
      in case sampled of
           Inl e \<Rightarrow> Inl e
         | Inr u \<Rightarrow>
             (let nextStep = \<lparr>next_uid = u, next_refreshLeft = refreshLeft s\<rparr>;
                  s3 = s2\<lparr>refreshLeft := \<not> refreshLeft s\<rparr>;
                  s4 = (if dialogConfigured p newStep then s3\<lparr>dialogOpen := True\<rparr> else s3)
              in Inr (nextStep, s4)))"

definition closeDialog :: "series_state \<Rightarrow> series_state" where
  "closeDialog s = s\<lparr>dialogOpen := False\<rparr>"

text \<open>
  \<^verbatim>\<open>generateSteps(length)\<close>: one step per index below \<open>length\<close>, here by the text of its label
  (\<^verbatim>\<open>false\<close> renders as nothing).
\<close>

definition generateSteps :: "int \<Rightarrow> string list" where
  "generateSteps len =
     map (\<lambda>i. (if i = 0 then ''start'' else '''') @ (if i = len - 1 then ''end!'' else ''''))
       [0..len - 1]"

text \<open>
  What the component renders: the dialog box with its content and its \<^verbatim>\<open>open\<close> flag, when there
  is one; the stepper with its active step and its steps, when there is one; and the
  \<^verbatim>\<open>afterSubmitCallback\<close> property of the \<^verbatim>\<open>Comparison\<close> element, which is rendered on both
  branches.
\<close>

record view =
  dialogBox :: "(dialog \<times> bool) option"
  stepper :: "(int \<times> string list) option"
  comparisonCallback ::
    "(string \<Rightarrow> string \<Rightarrow> nat \<Rightarrow> error + (next_step \<times> series_state)) option"

definition render :: "props \<Rightarrow> series_state \<Rightarrow> view" where
  "render p s =
     (if length_prop p \<ge> MIN_LENGTH then
        \<lparr>dialogBox =
           (case dialogs p of
              None \<Rightarrow> None
            | Some d \<Rightarrow> (case d (step s) of None \<Rightarrow> None | Some dlg \<Rightarrow> Some (dlg, dialogOpen s))),
         stepper = Some (step s, generateSteps (length_prop p)),
         comparisonCallback = Some (afterSubmitCallback p s)\<rparr>
      else \<lparr>dialogBox = None, stepper = None, comparisonCallback = None\<rparr>)"

subsection \<open>Runs of the controller\<close>

text \<open>
  The events that change the state: a call of \<^verbatim>\<open>afterSubmitCallback\<close> with its two identifiers
  and the draw of its sampling, a call of \<^verbatim>\<open>closeDialog\<close>, and the effect that fetches the
  alternatives, placed where its continuation runs. Each event is handled to its end on
  the state the one before it left.
\<close>

datatype event = Submit string string nat | CloseDialog | AlternativesEffect

text \<open>A run returns what each \<open>Submit\<close> returned, in order, and the last state.\<close>

fun run :: "props \<Rightarrow> series_state \<Rightarrow> event list \<Rightarrow> error + (next_step list \<times> series_state)" where
  "run p s [] = Inr ([], s)"
| "run p s (Submit uidA uidB r # evs) =
     (case afterSubmitCallback p s uidA uidB r of
        Inl e \<Rightarrow> Inl e
      | Inr (ns, s') \<Rightarrow>
          (case run p s' evs of
             Inl e \<Rightarrow> Inl e
           | Inr (outs, s'') \<Rightarrow> Inr (ns # outs, s'')))"
| "run p s (CloseDialog # evs) = run p (closeDialog s) evs"
| "run p s (AlternativesEffect # evs) = run p (alternativesEffect p s) evs"

fun submissions :: "event list \<Rightarrow> nat" where
  "submissions [] = 0"
| "submissions (Submit uidA uidB r # evs) = Suc (submissions evs)"
| "submissions (ev # evs) = submissions evs"

text \<open>
  Modelled from the spec: the \<^verbatim>\<open>Comparison\<close> widget (\<^verbatim>\<open>src/features/comparisons/Comparison\<close>,
  not among the sources) calls the submission handler it was given, once for each
  submitted comparison, with the two compared identifiers (spec, section 2). Without a
  handler, a submission reaches no code of the controller.
\<close>

definition submitInView ::
  "props \<Rightarrow> series_state \<Rightarrow> string \<Rightarrow> string \<Rightarrow> nat \<Rightarrow> error + (next_step option \<times> series_state)" where
  "submitInView p s uidA uidB r =
     (case comparisonCallback (render p s) of
        None \<Rightarrow> Inr (None, s)
      | Some callback \<Rightarrow> map_sum id (\<lambda>(ns, s'). (Some ns, s')) (callback uidA uidB r))"

fun submitAllInView ::
  "props \<Rightarrow> series_state \<Rightarrow> (string \<times> string \<times> nat) list \<Rightarrow> error + (next_step option list \<times> series_state)" where
  "submitAllInView p s [] = Inr ([], s)"
| "submitAllInView p s ((uidA, uidB, r) # rest) =
     (case submitInView p s uidA uidB r of
        Inl e \<Rightarrow> Inl e
      | Inr (out, s') \<Rightarrow>
          (case submitAllInView p s' rest of
             Inl e \<Rightarrow> Inl e
           | Inr (outs, s'') \<Rightarrow> Inr (out # outs, s'')))"

section \<open>Properties\<close>

subsection \<open>The helpers modelled from the spec\<close>

text \<open>
  The model of the helpers meets what the spec says of them: a key is read back into its
  two members, and \<open>alreadyComparedWith\<close> is symmetric (spec, section 8) and empty for an
  identifier that is in no pair.
\<close>

lemma pairMembers_key:
  "CHR ''/'' \<notin> set uidA \<Longrightarrow> pairMembers (uidA @ ''/'' @ uidB) = (uidA, uidB)"
  by (induction uidA) (auto simp: pairMembers_def)

lemma alreadyComparedWith_Cons:
  "alreadyComparedWith u (key # history) =
     (if fst (pairMembers key) = u then [snd (pairMembers key)]
      else if snd (pairMembers key) = u then [fst (pairMembers key)]
      else []) @ alreadyComparedWith u history"
  by (simp add: case_prod_beta)

lemma alreadyComparedWith_symmetric:
  assumes "key \<in> set history" and "pairMembers key = (a, b)"
  shows "b \<in> set (alreadyComparedWith a history) \<and> a \<in> set (alreadyComparedWith b history)"
  using assms
proof (induction history)
  case Nil
  then show ?case by simp
next
  case (Cons k history)
  show ?case
  proof (cases "k = key")
    case True
    with Cons.prems(2) show ?thesis
      by (simp add: alreadyComparedWith_Cons del: alreadyComparedWith.simps(2))
  next
    case False
    with Cons have "b \<in> set (alreadyComparedWith a history)
        \<and> a \<in> set (alreadyComparedWith b history)"
      by simp
    then show ?thesis
      by (simp add: alreadyComparedWith_Cons del: alreadyComparedWith.simps(2))
  qed
qed

lemma alreadyComparedWith_unseen:
  assumes "\<forall>key \<in> set history. u \<noteq> fst (pairMembers key) \<and> u \<noteq> snd (pairMembers key)"
  shows "alreadyComparedWith u history = []"
  using assms
  by (induction history) (auto simp: alreadyComparedWith_Cons simp del: alreadyComparedWith.simps(2))

subsection \<open>One submission\<close>

lemma selectRandomEntity_nonempty:
  assumes "pool \<noteq> []"
  shows "\<exists>e. selectRandomEntity r pool excluded = Inr e \<and> e \<in> set pool"
proof -
  let ?eligible = "filter (\<lambda>e. uid e \<notin> set excluded) pool"
  show ?thesis
  proof (cases "?eligible = []")
    case True
    with assms show ?thesis by (simp add: selectRandomEntity_def)
  next
    case False
    then have "?eligible ! (r mod length ?eligible) \<in> set ?eligible"
      by (intro nth_mem) simp
    then have "?eligible ! (r mod length ?eligible) \<in> set pool" by simp
    with assms False show ?thesis by (simp add: selectRandomEntity_def Let_def)
  qed
qed

lemma afterSubmitCallback_returns:
  "\<exists>ns s'. afterSubmitCallback p s uidA uidB r = Inr (ns, s')"
proof (cases "alternatives s = []")
  case True
  then show ?thesis by (simp add: afterSubmitCallback_def Let_def)
next
  case False
  then obtain e where
    "selectRandomEntity r (alternatives s)
       (alreadyComparedWith (if refreshLeft s then uidB else uidA)
          (comparisonsMade s @ [uidA @ ''/'' @ uidB]) @ [if refreshLeft s then uidB else uidA]) = Inr e"
    using selectRandomEntity_nonempty by blast
  with False show ?thesis by (simp add: afterSubmitCallback_def Let_def)
qed

lemma afterSubmitCallback_state:
  assumes "afterSubmitCallback p s uidA uidB r = Inr (ns, s')"
  shows "step s' = (if step s < length_prop p then step s + 1 else step s)"
    and "comparisonsMade s' = comparisonsMade s @ [uidA @ ''/'' @ uidB]"
    and "refreshLeft s' = (\<not> refreshLeft s)"
    and "alternatives s' = alternatives s"
    and "dialogOpen s' = (if dialogConfigured p (step s + 1) then True else dialogOpen s)"
    and "next_refreshLeft ns = refreshLeft s"
  using assms
  by (auto simp: afterSubmitCallback_def Let_def split: sum.splits if_splits)

lemma afterSubmitCallback_uid:
  assumes "afterSubmitCallback p s uidA uidB r = Inr (ns, s')"
  shows "alternatives s = [] \<Longrightarrow> next_uid ns = ''''"
    and "alternatives s \<noteq> [] \<Longrightarrow>
           selectRandomEntity r (alternatives s)
             (alreadyComparedWith (if refreshLeft s then uidB else uidA)
                (comparisonsMade s @ [uidA @ ''/'' @ uidB]) @ [if refreshLeft s then uidB else uidA])
           = Inr e \<Longrightarrow> next_uid ns = uid e"
  using assms
  by (auto simp: afterSubmitCallback_def Let_def split: sum.splits if_splits)

lemma afterSubmitCallback_props:
  assumes "dialogs p = dialogs q" and len: "length_prop p = length_prop q"
  shows "afterSubmitCallback p s uidA uidB r = afterSubmitCallback q s uidA uidB r"
proof -
  have dc: "dialogConfigured p = dialogConfigured q"
    using assms(1) by (simp add: dialogConfigured_def fun_eq_iff)
  show ?thesis
    unfolding afterSubmitCallback_def dc len ..
qed

lemma closeDialog_frame:
  "step (closeDialog s) = step s"
  "dialogOpen (closeDialog s) = False"
  "refreshLeft (closeDialog s) = refreshLeft s"
  "alternatives (closeDialog s) = alternatives s"
  "comparisonsMade (closeDialog s) = comparisonsMade s"
  by (simp_all add: closeDialog_def)

subsection \<open>The effect that fetches the alternatives\<close>

lemma alternativesEffect_frame:
  "step (alternativesEffect p s) = step s"
  "dialogOpen (alternativesEffect p s) = dialogOpen s"
  "refreshLeft (alternativesEffect p s) = refreshLeft s"
  "comparisonsMade (alternativesEffect p s) = comparisonsMade s"
  by (simp_all add: alternativesEffect_def getAlternativesAsync_def
      split: option.splits promise.splits)

lemma alternativesEffect_no_store:
  assumes "\<forall>alts. getAlternatives p = Some (Fulfilled alts) \<longrightarrow> alts = []"
  shows "alternativesEffect p s = s"
  using assms
  by (simp add: alternativesEffect_def getAlternativesAsync_def
      split: option.splits promise.splits)

lemma getAlternativesAsync_undefined:
  "getAlternatives p = None \<Longrightarrow> getAlternativesAsync p s = (Fulfilled (), s)"
  by (simp add: getAlternativesAsync_def)

subsection \<open>Runs\<close>

lemma run_returns: "\<exists>outs s'. run p s evs = Inr (outs, s')"
proof (induction evs arbitrary: s)
  case Nil
  show ?case by simp
next
  case (Cons ev evs)
  show ?case
  proof (cases ev)
    case (Submit uidA uidB r)
    obtain ns s1 where "afterSubmitCallback p s uidA uidB r = Inr (ns, s1)"
      using afterSubmitCallback_returns by blast
    moreover obtain outs s2 where "run p s1 evs = Inr (outs, s2)"
      using Cons.IH by blast
    ultimately show ?thesis using Submit by simp
  next
    case CloseDialog
    then show ?thesis using Cons.IH by simp
  next
    case AlternativesEffect
    then show ?thesis using Cons.IH by simp
  qed
qed

lemma run_outs_length:
  "run p s evs = Inr (outs, s') \<Longrightarrow> length outs = submissions evs"
proof (induction evs arbitrary: s outs)
  case Nil
  then show ?case by simp
next
  case (Cons ev evs)
  show ?case
  proof (cases ev)
    case (Submit uidA uidB r)
    with Cons.prems obtain ns s1 outs1 where
      "run p s1 evs = Inr (outs1, s')" "outs = ns # outs1"
      by (auto split: sum.splits)
    then show ?thesis using Cons.IH Submit by simp
  next
    case CloseDialog
    then show ?thesis using Cons by simp
  next
    case AlternativesEffect
    then show ?thesis using Cons by simp
  qed
qed

lemma run_refreshLeft:
  "run p s evs = Inr (outs, s') \<Longrightarrow> refreshLeft s' = (refreshLeft s \<noteq> odd (submissions evs))"
proof (induction evs arbitrary: s outs)
  case Nil
  then show ?case by simp
next
  case (Cons ev evs)
  show ?case
  proof (cases ev)
    case (Submit uidA uidB r)
    with Cons.prems obtain ns s1 outs1 where
      cb: "afterSubmitCallback p s uidA uidB r = Inr (ns, s1)"
      and rest: "run p s1 evs = Inr (outs1, s')"
      by (auto split: sum.splits)
    have "refreshLeft s1 = (\<not> refreshLeft s)"
      using cb by (rule afterSubmitCallback_state)
    moreover have "refreshLeft s' = (refreshLeft s1 \<noteq> odd (submissions evs))"
      using rest by (rule Cons.IH)
    ultimately show ?thesis using Submit by auto
  next
    case CloseDialog
    then show ?thesis using Cons by (simp add: closeDialog_def)
  next
    case AlternativesEffect
    then show ?thesis using Cons by (simp add: alternativesEffect_frame)
  qed
qed

lemma run_step_bounded:
  "0 \<le> step s \<Longrightarrow> step s \<le> length_prop p \<Longrightarrow> run p s evs = Inr (outs, s') \<Longrightarrow>
   0 \<le> step s' \<and> step s' \<le> length_prop p"
proof (induction evs arbitrary: s outs)
  case Nil
  then show ?case by simp
next
  case (Cons ev evs)
  show ?case
  proof (cases ev)
    case (Submit uidA uidB r)
    with Cons.prems obtain ns s1 outs1 where
      cb: "afterSubmitCallback p s uidA uidB r = Inr (ns, s1)"
      and rest: "run p s1 evs = Inr (outs1, s')"
      by (auto split: sum.splits)
    have "step s1 = (if step s < length_prop p then step s + 1 else step s)"
      using cb by (rule afterSubmitCallback_state)
    with Cons.prems have "0 \<le> step s1" "step s1 \<le> length_prop p"
      by (simp_all split: if_splits)
    then show ?thesis using rest by (rule Cons.IH)
  next
    case CloseDialog
    then show ?thesis
      using Cons.IH [of "closeDialog s" outs] Cons.prems by (simp add: closeDialog_def)
  next
    case AlternativesEffect
    then show ?thesis
      using Cons.IH [of "alternativesEffect p s" outs] Cons.prems
      by (simp add: alternativesEffect_frame)
  qed
qed

lemma run_empty_pool:
  assumes "\<forall>alts. getAlternatives p = Some (Fulfilled alts) \<longrightarrow> alts = []"
  shows "alternatives s = [] \<Longrightarrow> run p s evs = Inr (outs, s') \<Longrightarrow>
         alternatives s' = [] \<and> (\<forall>ns \<in> set outs. next_uid ns = '''')"
proof (induction evs arbitrary: s outs)
  case Nil
  then show ?case by simp
next
  case (Cons ev evs)
  show ?case
  proof (cases ev)
    case (Submit uidA uidB r)
    with Cons.prems obtain ns s1 outs1 where
      cb: "afterSubmitCallback p s uidA uidB r = Inr (ns, s1)"
      and rest: "run p s1 evs = Inr (outs1, s')" and outs: "outs = ns # outs1"
      by (auto split: sum.splits)
    have "alternatives s1 = alternatives s"
      using cb by (rule afterSubmitCallback_state)
    with Cons.prems have "alternatives s1 = []" by simp
    then have "alternatives s' = [] \<and> (\<forall>ns \<in> set outs1. next_uid ns = '''')"
      using rest by (rule Cons.IH)
    moreover have "next_uid ns = ''''"
      using cb Cons.prems(1) by (rule afterSubmitCallback_uid)
    ultimately show ?thesis using outs by simp
  next
    case CloseDialog
    then show ?thesis
      using Cons.IH [of "closeDialog s" outs] Cons.prems by (simp add: closeDialog_def)
  next
    case AlternativesEffect
    then show ?thesis
      using Cons.IH [of s outs] Cons.prems assms by (simp add: alternativesEffect_no_store)
  qed
qed

lemma run_initial_empty_pool:
  assumes "\<forall>alts. getAlternatives p = Some (Fulfilled alts) \<longrightarrow> alts = []"
  shows "\<exists>outs s'. run p initialState evs = Inr (outs, s') \<and> alternatives s' = []
           \<and> (\<forall>ns \<in> set outs. next_uid ns = '''')"
proof -
  obtain outs s' where run: "run p initialState evs = Inr (outs, s')"
    using run_returns by blast
  have "alternatives initialState = []"
    by (simp add: initialState_def)
  then have "alternatives s' = [] \<and> (\<forall>ns \<in> set outs. next_uid ns = '''')"
    using run by (rule run_empty_pool [OF assms])
  with run show ?thesis by (intro exI [of _ outs] exI [of _ s']) simp
qed

lemma run_props:
  assumes "dialogs p = dialogs q" and "length_prop p = length_prop q"
    and "\<And>t. alternativesEffect p t = alternativesEffect q t"
  shows "run p s evs = run q s evs"
proof (induction evs arbitrary: s)
  case Nil
  show ?case by simp
next
  case (Cons ev evs)
  show ?case
  proof (cases ev)
    case (Submit uidA uidB r)
    have "afterSubmitCallback p s uidA uidB r = afterSubmitCallback q s uidA uidB r"
      using assms(1,2) by (rule afterSubmitCallback_props)
    then show ?thesis using Submit Cons.IH by (simp split: sum.splits)
  next
    case CloseDialog
    then show ?thesis using Cons.IH by simp
  next
    case AlternativesEffect
    then show ?thesis using Cons.IH assms(3) by simp
  qed
qed

subsection \<open>The rendered view\<close>

lemma render_short:
  "length_prop p < MIN_LENGTH \<Longrightarrow>
   render p s = \<lparr>dialogBox = None, stepper = None, comparisonCallback = None\<rparr>"
  by (simp add: render_def)

lemma submitInView_short:
  "length_prop p < MIN_LENGTH \<Longrightarrow> submitInView p s uidA uidB r = Inr (None, s)"
  by (simp add: submitInView_def render_short)

lemma submitAllInView_short:
  "length_prop p < MIN_LENGTH \<Longrightarrow>
   submitAllInView p s subs = Inr (replicate (length subs) None, s)"
  by (induction subs) (auto simp: submitInView_short)

section \<open>The claims\<close>

text \<open>
  Claim C1. Every call \<open>Submit(uidA, uidB)\<close> keeps \<open>uidB\<close> when \<open>refreshLeft\<close> is true at the
  time of the call and \<open>uidA\<close> otherwise; the exclusion list is what \<open>alreadyComparedWith\<close>
  gives for the kept identifier on the history with the new pair appended, followed by the
  kept identifier itself; the sampler is called with that list only when the pool is not
  empty; and the call returns the sampled entity's \<open>uid\<close>, or the empty string, together
  with the value \<open>refreshLeft\<close> had before it was toggled.
\<close>

theorem submit_returns_replacement:
  "let keptUid = (if refreshLeft s then uidB else uidA);
       excluded =
         alreadyComparedWith keptUid (comparisonsMade s @ [uidA @ ''/'' @ uidB]) @ [keptUid]
   in (alternatives s = [] \<longrightarrow>
         (\<exists>s'. afterSubmitCallback p s uidA uidB r =
            Inr (\<lparr>next_uid = '''', next_refreshLeft = refreshLeft s\<rparr>, s')))
    \<and> (alternatives s \<noteq> [] \<longrightarrow>
         (\<exists>e s'. selectRandomEntity r (alternatives s) excluded = Inr e
            \<and> afterSubmitCallback p s uidA uidB r =
                Inr (\<lparr>next_uid = uid e, next_refreshLeft = refreshLeft s\<rparr>, s')))"
proof (cases "alternatives s = []")
  case True
  then show ?thesis by (simp add: afterSubmitCallback_def Let_def)
next
  case False
  then obtain e where
    "selectRandomEntity r (alternatives s)
       (alreadyComparedWith (if refreshLeft s then uidB else uidA)
          (comparisonsMade s @ [uidA @ ''/'' @ uidB]) @ [if refreshLeft s then uidB else uidA]) = Inr e"
    using selectRandomEntity_nonempty by blast
  with False show ?thesis by (simp add: afterSubmitCallback_def Let_def)
qed

theorem submit_returns_replacement_witness:
  "\<exists>s'. afterSubmitCallback \<lparr>dialogs = None, getAlternatives = None, length_prop = 2\<rparr>
      \<lparr>step = 1, dialogOpen = True, refreshLeft = True,
       alternatives =
         [\<lparr>uid = ''E1'', metadata = ''''\<rparr>, \<lparr>uid = ''E2'', metadata = ''''\<rparr>,
          \<lparr>uid = ''E3'', metadata = ''''\<rparr>],
       comparisonsMade = [''E1/B'']\<rparr>
      ''E2'' ''B'' 7
    = Inr (\<lparr>next_uid = ''E3'', next_refreshLeft = True\<rparr>, s')"
  using submit_returns_replacement
    [where s = "\<lparr>step = 1, dialogOpen = True, refreshLeft = True,
          alternatives =
            [\<lparr>uid = ''E1'', metadata = ''''\<rparr>, \<lparr>uid = ''E2'', metadata = ''''\<rparr>,
             \<lparr>uid = ''E3'', metadata = ''''\<rparr>],
          comparisonsMade = [''E1/B'']\<rparr>"
        and uidA = "''E2''" and uidB = "''B''" and r = 7
        and p = "\<lparr>dialogs = None, getAlternatives = None, length_prop = 2\<rparr>"]
  by (simp add: Let_def selectRandomEntity_def pairMembers_def)

text \<open>
  Claim C2. With a configured length that is not negative, the step counter never exceeds
  it: after any sequence of events from the initial state, \<open>0 \<le> step \<le> length\<close> (and so
  after each of its prefixes). One \<open>Submit\<close> adds exactly one to \<open>step\<close> when
  \<open>step < length\<close>; when \<open>step \<ge> length\<close> it leaves \<open>step\<close> as it is, and still appends
  the pair to \<open>comparisonsMade\<close> and still returns the \<open>uid\<close> the sampler picked.
\<close>

theorem step_never_exceeds_length:
  assumes "0 \<le> length_prop p"
  shows
    "(\<exists>outs s'. run p initialState evs = Inr (outs, s') \<and> 0 \<le> step s' \<and> step s' \<le> length_prop p)
     \<and> (\<exists>ns s'. afterSubmitCallback p s uidA uidB r = Inr (ns, s')
          \<and> (step s < length_prop p \<longrightarrow> step s' = step s + 1)
          \<and> (length_prop p \<le> step s \<longrightarrow>
                step s' = step s
              \<and> comparisonsMade s' = comparisonsMade s @ [uidA @ ''/'' @ uidB]
              \<and> (alternatives s \<noteq> [] \<longrightarrow>
                   (\<exists>e. selectRandomEntity r (alternatives s)
                          (alreadyComparedWith (if refreshLeft s then uidB else uidA)
                             (comparisonsMade s @ [uidA @ ''/'' @ uidB])
                           @ [if refreshLeft s then uidB else uidA]) = Inr e
                        \<and> next_uid ns = uid e))))"
proof (rule conjI)
  obtain outs s' where run: "run p initialState evs = Inr (outs, s')"
    using run_returns by blast
  have "0 \<le> step initialState" "step initialState \<le> length_prop p"
    using assms by (simp_all add: initialState_def)
  then have "0 \<le> step s' \<and> step s' \<le> length_prop p"
    using run by (rule run_step_bounded)
  with run show "\<exists>outs s'. run p initialState evs = Inr (outs, s')
      \<and> 0 \<le> step s' \<and> step s' \<le> length_prop p"
    by simp
next
  let ?excluded = "alreadyComparedWith (if refreshLeft s then uidB else uidA)
      (comparisonsMade s @ [uidA @ ''/'' @ uidB]) @ [if refreshLeft s then uidB else uidA]"
  obtain ns s' where cb: "afterSubmitCallback p s uidA uidB r = Inr (ns, s')"
    using afterSubmitCallback_returns by blast
  have st: "step s' = (if step s < length_prop p then step s + 1 else step s)"
    using cb by (rule afterSubmitCallback_state)
  have hist: "comparisonsMade s' = comparisonsMade s @ [uidA @ ''/'' @ uidB]"
    using cb by (rule afterSubmitCallback_state)
  have repl: "\<exists>e. selectRandomEntity r (alternatives s) ?excluded = Inr e \<and> next_uid ns = uid e"
    if pool: "alternatives s \<noteq> []"
  proof -
    obtain e where e: "selectRandomEntity r (alternatives s) ?excluded = Inr e"
      using pool selectRandomEntity_nonempty by blast
    have "next_uid ns = uid e"
      using cb pool e by (rule afterSubmitCallback_uid)
    with e show ?thesis by simp
  qed
  show "\<exists>ns s'. afterSubmitCallback p s uidA uidB r = Inr (ns, s')
          \<and> (step s < length_prop p \<longrightarrow> step s' = step s + 1)
          \<and> (length_prop p \<le> step s \<longrightarrow>
                step s' = step s
              \<and> comparisonsMade s' = comparisonsMade s @ [uidA @ ''/'' @ uidB]
              \<and> (alternatives s \<noteq> [] \<longrightarrow>
                   (\<exists>e. selectRandomEntity r (alternatives s) ?excluded = Inr e
                        \<and> next_uid ns = uid e)))"
    using cb st hist repl by (intro exI [of _ ns] exI [of _ s']) simp
qed

theorem step_never_exceeds_length_witness:
  "0 \<le> length_prop
      \<lparr>dialogs = None,
       getAlternatives = Some (Fulfilled
         [\<lparr>uid = ''E1'', metadata = ''''\<rparr>, \<lparr>uid = ''E2'', metadata = ''''\<rparr>,
          \<lparr>uid = ''E3'', metadata = ''''\<rparr>]),
       length_prop = 2\<rparr>
   \<and> map_sum id (\<lambda>(outs, s'). (map next_uid outs, step s', comparisonsMade s'))
        (run
           \<lparr>dialogs = None,
            getAlternatives = Some (Fulfilled
              [\<lparr>uid = ''E1'', metadata = ''''\<rparr>, \<lparr>uid = ''E2'', metadata = ''''\<rparr>,
               \<lparr>uid = ''E3'', metadata = ''''\<rparr>]),
            length_prop = 2\<rparr>
           initialState
           [AlternativesEffect, Submit ''A'' ''B'' 0, Submit ''A'' ''E1'' 1,
            Submit ''E3'' ''E1'' 2])
       = Inr ([''E1'', ''E3'', ''E2''], 2, [''A/B'', ''A/E1'', ''E3/E1''])
   \<and> map_sum id (\<lambda>(ns, s'). (next_uid ns, step s', comparisonsMade s'))
        (afterSubmitCallback
           \<lparr>dialogs = None,
            getAlternatives = Some (Fulfilled
              [\<lparr>uid = ''E1'', metadata = ''''\<rparr>, \<lparr>uid = ''E2'', metadata = ''''\<rparr>,
               \<lparr>uid = ''E3'', metadata = ''''\<rparr>]),
            length_prop = 2\<rparr>
           \<lparr>step = 2, dialogOpen = True, refreshLeft = False,
            alternatives =
              [\<lparr>uid = ''E1'', metadata = ''''\<rparr>, \<lparr>uid = ''E2'', metadata = ''''\<rparr>,
               \<lparr>uid = ''E3'', metadata = ''''\<rparr>],
            comparisonsMade = [''A/B'', ''A/E1'']\<rparr>
           ''E3'' ''E1'' 2)
       = Inr (''E2'', 2, [''A/B'', ''A/E1'', ''E3/E1''])"
  using step_never_exceeds_length
    [where p = "\<lparr>dialogs = None,
            getAlternatives = Some (Fulfilled
              [\<lparr>uid = ''E1'', metadata = ''''\<rparr>, \<lparr>uid = ''E2'', metadata = ''''\<rparr>,
               \<lparr>uid = ''E3'', metadata = ''''\<rparr>]),
            length_prop = 2\<rparr>"
       and evs = "[AlternativesEffect, Submit ''A'' ''B'' 0, Submit ''A'' ''E1'' 1,
            Submit ''E3'' ''E1'' 2]"
       and s = "\<lparr>step = 2, dialogOpen = True, refreshLeft = False,
            alternatives =
              [\<lparr>uid = ''E1'', metadata = ''''\<rparr>, \<lparr>uid = ''E2'', metadata = ''''\<rparr>,
               \<lparr>uid = ''E3'', metadata = ''''\<rparr>],
            comparisonsMade = [''A/B'', ''A/E1'']\<rparr>"
       and uidA = "''E3''" and uidB = "''E1''" and r = 2]
  by (simp add: initialState_def afterSubmitCallback_def Let_def dialogConfigured_def
      alternativesEffect_def getAlternativesAsync_def selectRandomEntity_def pairMembers_def)

text \<open>
  Claim C3. \<open>refreshLeft\<close> starts false and every \<open>Submit\<close> negates it, whatever the step
  and the length: after a run with \<open>n\<close> submissions, all of which return, \<open>refreshLeft\<close> is
  true exactly when \<open>n\<close> is odd.
\<close>

theorem refreshLeft_alternates:
  "refreshLeft initialState = False
   \<and> (\<exists>ns s'. afterSubmitCallback p s uidA uidB r = Inr (ns, s')
         \<and> refreshLeft s' = (\<not> refreshLeft s))
   \<and> (\<exists>outs s'. run p initialState evs = Inr (outs, s')
         \<and> length outs = submissions evs
         \<and> refreshLeft s' = odd (submissions evs))"
proof (intro conjI)
  show "refreshLeft initialState = False"
    by (simp add: initialState_def)
next
  obtain ns s1 where cb: "afterSubmitCallback p s uidA uidB r = Inr (ns, s1)"
    using afterSubmitCallback_returns by blast
  then have "refreshLeft s1 = (\<not> refreshLeft s)"
    by (rule afterSubmitCallback_state)
  with cb show "\<exists>ns s'. afterSubmitCallback p s uidA uidB r = Inr (ns, s')
      \<and> refreshLeft s' = (\<not> refreshLeft s)"
    by simp
next
  obtain outs s' where run: "run p initialState evs = Inr (outs, s')"
    using run_returns by blast
  then have "refreshLeft s' = (refreshLeft initialState \<noteq> odd (submissions evs))"
    by (rule run_refreshLeft)
  then have "refreshLeft s' = odd (submissions evs)"
    by (simp add: initialState_def)
  moreover have "length outs = submissions evs"
    using run by (rule run_outs_length)
  ultimately show "\<exists>outs s'. run p initialState evs = Inr (outs, s')
      \<and> length outs = submissions evs \<and> refreshLeft s' = odd (submissions evs)"
    using run by simp
qed

theorem refreshLeft_alternates_witness:
  "map_sum id (\<lambda>(outs, s'). (map next_refreshLeft outs, step s', refreshLeft s'))
     (run \<lparr>dialogs = None, getAlternatives = None, length_prop = 2\<rparr> initialState
        [Submit ''A'' ''B'' 0, CloseDialog, Submit ''A'' ''C'' 1, Submit ''D'' ''C'' 2])
     = Inr ([False, True, False], 2, True)
   \<and> (\<exists>outs s'. run \<lparr>dialogs = None, getAlternatives = None, length_prop = 2\<rparr> initialState
        [Submit ''A'' ''B'' 0, CloseDialog, Submit ''A'' ''C'' 1, Submit ''D'' ''C'' 2]
        = Inr (outs, s') \<and> length outs = 3 \<and> refreshLeft s' = odd (3::nat))"
  using refreshLeft_alternates
    [where p = "\<lparr>dialogs = None, getAlternatives = None, length_prop = 2\<rparr>"
       and evs = "[Submit ''A'' ''B'' 0, CloseDialog, Submit ''A'' ''C'' 1, Submit ''D'' ''C'' 2]"
       and s = initialState and uidA = "''A''" and uidB = "''B''" and r = 0]
  by (simp add: initialState_def afterSubmitCallback_def Let_def dialogConfigured_def
      closeDialog_def)

text \<open>
  Claim C4. On an empty pool a \<open>Submit\<close> returns the empty string as \<open>uid\<close>, and the same
  result and state whatever the random draw: nothing is sampled. No \<open>Submit\<close>, on any
  state, ends in \<open>EmptyPoolError\<close>, the error of the sampler on an empty pool: the sampler
  is called on a pool that is not empty only.
\<close>

theorem empty_pool_never_samples:
  "(alternatives s = [] \<longrightarrow>
      (\<exists>s'. \<forall>r. afterSubmitCallback p s uidA uidB r =
         Inr (\<lparr>next_uid = '''', next_refreshLeft = refreshLeft s\<rparr>, s')))
   \<and> (\<forall>t r. afterSubmitCallback p t uidA uidB r \<noteq> Inl EmptyPoolError)
   \<and> (\<forall>r excluded. selectRandomEntity r [] excluded = Inl EmptyPoolError)"
proof (intro conjI impI allI)
  assume "alternatives s = []"
  then show "\<exists>s'. \<forall>r. afterSubmitCallback p s uidA uidB r =
      Inr (\<lparr>next_uid = '''', next_refreshLeft = refreshLeft s\<rparr>, s')"
    by (simp add: afterSubmitCallback_def Let_def)
next
  fix t r
  obtain ns s' where "afterSubmitCallback p t uidA uidB r = Inr (ns, s')"
    using afterSubmitCallback_returns by blast
  then show "afterSubmitCallback p t uidA uidB r \<noteq> Inl EmptyPoolError"
    by simp
next
  fix r excluded
  show "selectRandomEntity r [] excluded = Inl EmptyPoolError"
    by (simp add: selectRandomEntity_def)
qed

theorem empty_pool_never_samples_witness:
  "alternatives initialState = []
   \<and> (\<forall>r. afterSubmitCallback \<lparr>dialogs = None, getAlternatives = None, length_prop = 2\<rparr>
          initialState ''A'' ''B'' r
        = Inr (\<lparr>next_uid = '''', next_refreshLeft = False\<rparr>,
               \<lparr>step = 1, dialogOpen = True, refreshLeft = True, alternatives = [],
                comparisonsMade = [''A/B'']\<rparr>))"
  using empty_pool_never_samples
    [where p = "\<lparr>dialogs = None, getAlternatives = None, length_prop = 2\<rparr>"
       and s = initialState and uidA = "''A''" and uidB = "''B''"]
  by (simp add: initialState_def afterSubmitCallback_def Let_def dialogConfigured_def)

text \<open>
  Claim C5. On a pool that is not empty \<open>selectRandomEntity\<close> returns an entity of the
  pool, whatever is excluded, and one that is not excluded when there is one. When every
  entity of the pool is excluded it chooses from the whole pool: the draw \<open>r\<close> gives the
  entity at index \<open>r mod length pool\<close>, so each entity of the pool is the choice of one
  draw below the pool's length.
\<close>

theorem selectRandomEntity_falls_back:
  assumes "pool \<noteq> []"
  shows
    "(\<exists>e. selectRandomEntity r pool excluded = Inr e \<and> e \<in> set pool
         \<and> ((\<exists>x \<in> set pool. uid x \<notin> set excluded) \<longrightarrow> uid e \<notin> set excluded))
     \<and> ((\<forall>x \<in> set pool. uid x \<in> set excluded) \<longrightarrow>
           selectRandomEntity r pool excluded = Inr (pool ! (r mod length pool))
         \<and> (\<forall>i < length pool. selectRandomEntity i pool excluded = Inr (pool ! i)))"
proof (rule conjI)
  let ?eligible = "filter (\<lambda>e. uid e \<notin> set excluded) pool"
  obtain e where e: "selectRandomEntity r pool excluded = Inr e" "e \<in> set pool"
    using assms selectRandomEntity_nonempty by blast
  have "uid e \<notin> set excluded" if some: "\<exists>x \<in> set pool. uid x \<notin> set excluded"
  proof -
    from some have ne: "?eligible \<noteq> []"
      by (simp add: filter_empty_conv)
    then have "?eligible ! (r mod length ?eligible) \<in> set ?eligible"
      by (intro nth_mem) simp
    moreover have "e = ?eligible ! (r mod length ?eligible)"
      using e(1) assms ne by (simp add: selectRandomEntity_def Let_def)
    ultimately show ?thesis by simp
  qed
  with e show "\<exists>e. selectRandomEntity r pool excluded = Inr e \<and> e \<in> set pool
      \<and> ((\<exists>x \<in> set pool. uid x \<notin> set excluded) \<longrightarrow> uid e \<notin> set excluded)"
    by (intro exI [of _ e]) simp
next
  show "(\<forall>x \<in> set pool. uid x \<in> set excluded) \<longrightarrow>
           selectRandomEntity r pool excluded = Inr (pool ! (r mod length pool))
         \<and> (\<forall>i < length pool. selectRandomEntity i pool excluded = Inr (pool ! i))"
  proof
    assume "\<forall>x \<in> set pool. uid x \<in> set excluded"
    then have none: "filter (\<lambda>e. uid e \<notin> set excluded) pool = []"
      by (simp add: filter_empty_conv)
    then have "selectRandomEntity k pool excluded = Inr (pool ! (k mod length pool))" for k
      using assms by (simp add: selectRandomEntity_def)
    then show "selectRandomEntity r pool excluded = Inr (pool ! (r mod length pool))
         \<and> (\<forall>i < length pool. selectRandomEntity i pool excluded = Inr (pool ! i))"
      by simp
  qed
qed

theorem selectRandomEntity_falls_back_witness:
  "[\<lparr>uid = ''E1'', metadata = ''''\<rparr>, \<lparr>uid = ''E2'', metadata = ''''\<rparr>] \<noteq> []
   \<and> selectRandomEntity 5 [\<lparr>uid = ''E1'', metadata = ''''\<rparr>, \<lparr>uid = ''E2'', metadata = ''''\<rparr>]
        [''E2'', ''E1''] = Inr \<lparr>uid = ''E2'', metadata = ''''\<rparr>
   \<and> selectRandomEntity 0 [\<lparr>uid = ''E1'', metadata = ''''\<rparr>, \<lparr>uid = ''E2'', metadata = ''''\<rparr>]
        [''E2'', ''E1''] = Inr \<lparr>uid = ''E1'', metadata = ''''\<rparr>"
  using selectRandomEntity_falls_back
    [where pool = "[\<lparr>uid = ''E1'', metadata = ''''\<rparr>, \<lparr>uid = ''E2'', metadata = ''''\<rparr>]"
       and excluded = "[''E2'', ''E1'']" and r = 5]
  by (simp add: numeral_2_eq_2 [symmetric])

text \<open>
  Claim C6. After a \<open>Submit\<close>, \<open>dialogOpen\<close> is true when a dialog is configured for
  \<open>step + 1\<close>, and is what it was before otherwise. So a \<open>Submit\<close> that follows a
  \<open>closeDialog\<close> and has no dialog configured for \<open>step + 1\<close> leaves \<open>dialogOpen\<close> false.
\<close>

theorem submit_opens_configured_dialog:
  "(\<exists>ns s'. afterSubmitCallback p s uidA uidB r = Inr (ns, s')
       \<and> dialogOpen s' = (if dialogConfigured p (step s + 1) then True else dialogOpen s))
   \<and> (\<not> dialogConfigured p (step s + 1) \<longrightarrow>
        (\<exists>ns s'. afterSubmitCallback p (closeDialog s) uidA uidB r = Inr (ns, s')
           \<and> dialogOpen s' = False))"
proof (intro conjI impI)
  obtain ns s' where cb: "afterSubmitCallback p s uidA uidB r = Inr (ns, s')"
    using afterSubmitCallback_returns by blast
  then have "dialogOpen s' = (if dialogConfigured p (step s + 1) then True else dialogOpen s)"
    by (rule afterSubmitCallback_state)
  with cb show "\<exists>ns s'. afterSubmitCallback p s uidA uidB r = Inr (ns, s')
      \<and> dialogOpen s' = (if dialogConfigured p (step s + 1) then True else dialogOpen s)"
    by (intro exI [of _ ns] exI [of _ s']) simp
next
  assume unconfigured: "\<not> dialogConfigured p (step s + 1)"
  obtain ns s' where cb: "afterSubmitCallback p (closeDialog s) uidA uidB r = Inr (ns, s')"
    using afterSubmitCallback_returns by blast
  then have "dialogOpen s' =
      (if dialogConfigured p (step (closeDialog s) + 1) then True
       else dialogOpen (closeDialog s))"
    by (rule afterSubmitCallback_state)
  with unconfigured have "dialogOpen s' = False"
    by (simp add: closeDialog_frame)
  with cb show "\<exists>ns s'. afterSubmitCallback p (closeDialog s) uidA uidB r = Inr (ns, s')
      \<and> dialogOpen s' = False"
    by (intro exI [of _ ns] exI [of _ s']) simp
qed

theorem submit_opens_configured_dialog_witness:
  "map_sum id (\<lambda>(outs, s'). (step s', dialogOpen s'))
     (run \<lparr>dialogs = Some [1 \<mapsto> \<lparr>title = ''t'', messages = [''m'']\<rparr>],
           getAlternatives = None, length_prop = 2\<rparr>
        initialState [CloseDialog, Submit ''A'' ''B'' 0]) = Inr (1, True)
   \<and> map_sum id (\<lambda>(outs, s'). (step s', dialogOpen s'))
     (run \<lparr>dialogs = Some [1 \<mapsto> \<lparr>title = ''t'', messages = [''m'']\<rparr>],
           getAlternatives = None, length_prop = 2\<rparr>
        initialState [CloseDialog, Submit ''A'' ''B'' 0, CloseDialog]) = Inr (1, False)
   \<and> map_sum id (\<lambda>(outs, s'). (step s', dialogOpen s'))
     (run \<lparr>dialogs = Some [1 \<mapsto> \<lparr>title = ''t'', messages = [''m'']\<rparr>],
           getAlternatives = None, length_prop = 2\<rparr>
        initialState [CloseDialog, Submit ''A'' ''B'' 0, CloseDialog, Submit ''A'' ''C'' 0])
     = Inr (2, False)
   \<and> (\<exists>ns s'.
         afterSubmitCallback
           \<lparr>dialogs = Some [1 \<mapsto> \<lparr>title = ''t'', messages = [''m'']\<rparr>],
            getAlternatives = None, length_prop = 2\<rparr>
           (closeDialog
              \<lparr>step = 1, dialogOpen = True, refreshLeft = True, alternatives = [],
               comparisonsMade = [''A/B'']\<rparr>)
           ''A'' ''C'' 0 = Inr (ns, s')
         \<and> dialogOpen s' = False)"
  using submit_opens_configured_dialog
    [where p = "\<lparr>dialogs = Some [1 \<mapsto> \<lparr>title = ''t'', messages = [''m'']\<rparr>],
            getAlternatives = None, length_prop = 2\<rparr>"
       and s = "\<lparr>step = 1, dialogOpen = True, refreshLeft = True, alternatives = [],
               comparisonsMade = [''A/B'']\<rparr>"
       and uidA = "''A''" and uidB = "''C''" and r = 0]
  by (simp add: initialState_def afterSubmitCallback_def Let_def dialogConfigured_def
      closeDialog_def)

text \<open>
  Claim C7 says that at the start \<open>dialogOpen\<close> is true if and only if a dialog is
  configured for step 0. The state cell starts as \<^verbatim>\<open>useState(true)\<close>, whatever the
  properties: without any dialog configured, \<open>dialogOpen\<close> is true all the same.
\<close>

theorem initial_dialogOpen_counterexample:
  "\<not> (dialogOpen initialState
        = dialogConfigured \<lparr>dialogs = None, getAlternatives = None, length_prop = 2\<rparr> 0)"
  by (simp add: initialState_def dialogConfigured_def)

text \<open>
  Claim C7, amended. At the start \<open>step\<close> is 0, the history and the pool are empty,
  \<open>refreshLeft\<close> is false and \<open>dialogOpen\<close> is true, whatever is configured. It is the
  rendering that depends on the configuration: a dialog box is rendered, open, if and
  only if the length is at least \<open>MIN_LENGTH\<close> and a dialog is configured for step 0, and
  no dialog box is rendered otherwise.
\<close>

theorem initial_state_dialog:
  "step initialState = 0 \<and> comparisonsMade initialState = []
   \<and> refreshLeft initialState = False \<and> alternatives initialState = []
   \<and> dialogOpen initialState = True
   \<and> (\<exists>dlg. dialogBox (render p initialState) = Some (dlg, True))
       = (MIN_LENGTH \<le> length_prop p \<and> dialogConfigured p 0)
   \<and> (dialogBox (render p initialState) = None)
       = (\<not> (MIN_LENGTH \<le> length_prop p \<and> dialogConfigured p 0))"
  by (auto simp: initialState_def render_def dialogConfigured_def split: option.splits)

theorem initial_state_dialog_witness:
  "dialogOpen initialState = True
   \<and> dialogBox (render \<lparr>dialogs = None, getAlternatives = None, length_prop = 2\<rparr> initialState)
       = None
   \<and> dialogBox
        (render \<lparr>dialogs = Some [0 \<mapsto> \<lparr>title = ''t'', messages = [''m'']\<rparr>],
                 getAlternatives = None, length_prop = 2\<rparr> initialState)
       = Some (\<lparr>title = ''t'', messages = [''m'']\<rparr>, True)"
  using initial_state_dialog
    [where p = "\<lparr>dialogs = None, getAlternatives = None, length_prop = 2\<rparr>"]
    initial_state_dialog
    [where p = "\<lparr>dialogs = Some [0 \<mapsto> \<lparr>title = ''t'', messages = [''m'']\<rparr>],
                 getAlternatives = None, length_prop = 2\<rparr>"]
  by (simp add: initialState_def render_def MIN_LENGTH_def dialogConfigured_def)

text \<open>
  Claim C8 says that a fetch that is rejected surfaces no error. The source does not catch
  the rejection: it rejects the promise of \<open>getAlternativesAsync\<close>, which the effect drops
  without a handler, so a rejected fetch leaves an unhandled rejection.
\<close>

theorem fetch_rejection_unhandled_counterexample:
  "\<not> (getAlternatives \<lparr>dialogs = None, getAlternatives = Some Rejected, length_prop = 2\<rparr>
          = Some Rejected
        \<longrightarrow> \<not> unhandledRejection
              \<lparr>dialogs = None, getAlternatives = Some Rejected, length_prop = 2\<rparr>
              initialState)"
  by (simp add: unhandledRejection_def getAlternativesAsync_def)

text \<open>
  Claim C8, amended. The effect changes the state only when the fetch is fulfilled with a
  sequence that is not empty, and then it stores that sequence as the pool. When the fetch
  is fulfilled with the empty sequence or is rejected, the effect leaves the state as it
  was, and in every run from the initial state, wherever the effect takes place in it,
  each \<open>Submit\<close> returns, the pool stays empty and every returned \<open>uid\<close> is the empty
  string. A fetch fulfilled with the empty sequence surfaces no error. A rejection is not
  caught: the effect leaves an unhandled rejection exactly when the fetch is rejected, and
  the rejection changes nothing in the state of the controller.
\<close>

theorem fetch_failure_keeps_pool_empty:
  "(alternativesEffect p s \<noteq> s \<longrightarrow>
      (\<exists>alts. getAlternatives p = Some (Fulfilled alts) \<and> alts \<noteq> []
         \<and> alternativesEffect p s = s\<lparr>alternatives := alts\<rparr>))
   \<and> (getAlternatives p = Some (Fulfilled alts) \<and> alts \<noteq> [] \<longrightarrow>
        alternativesEffect p s = s\<lparr>alternatives := alts\<rparr>)
   \<and> (getAlternatives p = Some (Fulfilled []) \<or> getAlternatives p = Some Rejected \<longrightarrow>
        alternativesEffect p s = s
      \<and> (\<exists>outs s'. run p initialState evs = Inr (outs, s') \<and> alternatives s' = []
            \<and> (\<forall>ns \<in> set outs. next_uid ns = '''')))
   \<and> (getAlternatives p = Some (Fulfilled []) \<longrightarrow> \<not> unhandledRejection p s)
   \<and> (getAlternatives p = Some Rejected \<longrightarrow>
        getAlternativesAsync p s = (Rejected, s) \<and> unhandledRejection p s)
   \<and> unhandledRejection p s = (getAlternatives p = Some Rejected)"
proof (intro conjI impI)
  assume "alternativesEffect p s \<noteq> s"
  then show "\<exists>alts. getAlternatives p = Some (Fulfilled alts) \<and> alts \<noteq> []
      \<and> alternativesEffect p s = s\<lparr>alternatives := alts\<rparr>"
    by (simp add: alternativesEffect_def getAlternativesAsync_def
        split: option.splits promise.splits if_splits)
next
  assume "getAlternatives p = Some (Fulfilled alts) \<and> alts \<noteq> []"
  then show "alternativesEffect p s = s\<lparr>alternatives := alts\<rparr>"
    by (simp add: alternativesEffect_def getAlternativesAsync_def)
next
  assume "getAlternatives p = Some (Fulfilled []) \<or> getAlternatives p = Some Rejected"
  then show "alternativesEffect p s = s"
    by (intro alternativesEffect_no_store) auto
next
  assume "getAlternatives p = Some (Fulfilled []) \<or> getAlternatives p = Some Rejected"
  then have "\<forall>alts. getAlternatives p = Some (Fulfilled alts) \<longrightarrow> alts = []"
    by auto
  then show "\<exists>outs s'. run p initialState evs = Inr (outs, s') \<and> alternatives s' = []
      \<and> (\<forall>ns \<in> set outs. next_uid ns = '''')"
    by (rule run_initial_empty_pool)
next
  assume "getAlternatives p = Some (Fulfilled [])"
  then show "\<not> unhandledRejection p s"
    by (simp add: unhandledRejection_def getAlternativesAsync_def)
next
  assume "getAlternatives p = Some Rejected"
  then show "getAlternativesAsync p s = (Rejected, s)"
    by (simp add: getAlternativesAsync_def)
next
  assume "getAlternatives p = Some Rejected"
  then show "unhandledRejection p s"
    by (simp add: unhandledRejection_def getAlternativesAsync_def)
next
  show "unhandledRejection p s = (getAlternatives p = Some Rejected)"
    by (simp add: unhandledRejection_def getAlternativesAsync_def
        split: option.splits promise.splits)
qed

theorem fetch_failure_keeps_pool_empty_witness:
  "map_sum id (\<lambda>(outs, s'). (map next_uid outs, step s', alternatives s'))
     (run \<lparr>dialogs = None, getAlternatives = Some Rejected, length_prop = 2\<rparr> initialState
        [Submit ''A'' ''B'' 3, AlternativesEffect, Submit ''A'' ''C'' 4])
     = Inr (['''', ''''], 2, [])
   \<and> map_sum id (\<lambda>(outs, s'). (map next_uid outs, step s', alternatives s'))
     (run \<lparr>dialogs = None, getAlternatives = Some (Fulfilled []), length_prop = 2\<rparr> initialState
        [AlternativesEffect, Submit ''A'' ''B'' 3, Submit ''A'' ''C'' 4])
     = Inr (['''', ''''], 2, [])
   \<and> (\<exists>outs s'.
        run \<lparr>dialogs = None, getAlternatives = Some Rejected, length_prop = 2\<rparr> initialState
          [Submit ''A'' ''B'' 3, AlternativesEffect, Submit ''A'' ''C'' 4] = Inr (outs, s')
        \<and> alternatives s' = [] \<and> list_all (\<lambda>ns. next_uid ns = '''') outs)
   \<and> unhandledRejection
        \<lparr>dialogs = None, getAlternatives = Some Rejected, length_prop = 2\<rparr> initialState
   \<and> alternativesEffect
        \<lparr>dialogs = None, getAlternatives = Some Rejected, length_prop = 2\<rparr> initialState
       = initialState
   \<and> \<not> unhandledRejection
        \<lparr>dialogs = None, getAlternatives = Some (Fulfilled []), length_prop = 2\<rparr> initialState"
  using fetch_failure_keeps_pool_empty
    [where p = "\<lparr>dialogs = None, getAlternatives = Some Rejected, length_prop = 2\<rparr>"
       and s = initialState and alts = "[]"
       and evs = "[Submit ''A'' ''B'' 3, AlternativesEffect, Submit ''A'' ''C'' 4]"]
    fetch_failure_keeps_pool_empty
    [where p = "\<lparr>dialogs = None, getAlternatives = Some (Fulfilled []), length_prop = 2\<rparr>"
       and s = initialState and alts = "[]"
       and evs = "[AlternativesEffect, Submit ''A'' ''B'' 3, Submit ''A'' ''C'' 4]"]
  by (simp add: initialState_def afterSubmitCallback_def Let_def dialogConfigured_def
      alternativesEffect_def getAlternativesAsync_def)

text \<open>
  Claim C9. \<open>MIN_LENGTH\<close> is 2. With a length below it the component renders no dialog
  box and no stepper, and a \<^verbatim>\<open>Comparison\<close> without a submission handler: submissions made in
  that view return nothing and leave the state as it was, however many they are. With a
  length of at least \<open>MIN_LENGTH\<close> the handler is attached and the stepper is rendered.
\<close>

theorem short_series_unmanaged:
  "MIN_LENGTH = 2
   \<and> (length_prop p < MIN_LENGTH \<longrightarrow>
        render p s = \<lparr>dialogBox = None, stepper = None, comparisonCallback = None\<rparr>
      \<and> submitInView p s uidA uidB r = Inr (None, s)
      \<and> submitAllInView p s subs = Inr (replicate (length subs) None, s))
   \<and> (MIN_LENGTH \<le> length_prop p \<longrightarrow>
        comparisonCallback (render p s) = Some (afterSubmitCallback p s)
      \<and> stepper (render p s) = Some (step s, generateSteps (length_prop p)))"
proof (intro conjI impI)
  show "MIN_LENGTH = 2" by (simp add: MIN_LENGTH_def)
next
  assume "length_prop p < MIN_LENGTH"
  then show "render p s = \<lparr>dialogBox = None, stepper = None, comparisonCallback = None\<rparr>"
    by (rule render_short)
next
  assume "length_prop p < MIN_LENGTH"
  then show "submitInView p s uidA uidB r = Inr (None, s)"
    by (rule submitInView_short)
next
  assume "length_prop p < MIN_LENGTH"
  then show "submitAllInView p s subs = Inr (replicate (length subs) None, s)"
    by (rule submitAllInView_short)
next
  assume "MIN_LENGTH \<le> length_prop p"
  then show "comparisonCallback (render p s) = Some (afterSubmitCallback p s)"
    by (simp add: render_def)
next
  assume "MIN_LENGTH \<le> length_prop p"
  then show "stepper (render p s) = Some (step s, generateSteps (length_prop p))"
    by (simp add: render_def)
qed

theorem short_series_unmanaged_witness:
  "length_prop
     \<lparr>dialogs = Some [0 \<mapsto> \<lparr>title = ''t'', messages = [''m'']\<rparr>],
      getAlternatives = None, length_prop = 1\<rparr> < MIN_LENGTH
   \<and> render
       \<lparr>dialogs = Some [0 \<mapsto> \<lparr>title = ''t'', messages = [''m'']\<rparr>],
        getAlternatives = None, length_prop = 1\<rparr>
       initialState
     = \<lparr>dialogBox = None, stepper = None, comparisonCallback = None\<rparr>
   \<and> submitAllInView
       \<lparr>dialogs = Some [0 \<mapsto> \<lparr>title = ''t'', messages = [''m'']\<rparr>],
        getAlternatives = None, length_prop = 1\<rparr>
       initialState [(''A'', ''B'', 0), (''A'', ''C'', 1)]
     = Inr ([None, None], initialState)"
  using short_series_unmanaged
    [where p = "\<lparr>dialogs = Some [0 \<mapsto> \<lparr>title = ''t'', messages = [''m'']\<rparr>],
                 getAlternatives = None, length_prop = 1\<rparr>"
       and s = initialState and subs = "[(''A'', ''B'', 0), (''A'', ''C'', 1)]"]
  by (simp add: MIN_LENGTH_def)

text \<open>
  Claim C10. When the property \<open>getAlternatives\<close> is undefined, \<open>getAlternativesAsync\<close>
  awaits nothing: its promise is fulfilled at once and the state is as it was. In every
  run from the initial state each \<open>Submit\<close> returns, the pool stays empty and every
  returned \<open>uid\<close> is the empty string; and the run is the same, event for event, as with a
  fetch that is rejected or fulfilled with the empty sequence.
\<close>

theorem no_getAlternatives_no_fetch:
  "getAlternatives p = None \<longrightarrow>
     getAlternativesAsync p s = (Fulfilled (), s)
   \<and> (\<exists>outs s'. run p initialState evs = Inr (outs, s') \<and> alternatives s' = []
         \<and> (\<forall>ns \<in> set outs. next_uid ns = ''''))
   \<and> run p s evs = run (p\<lparr>getAlternatives := Some Rejected\<rparr>) s evs
   \<and> run p s evs = run (p\<lparr>getAlternatives := Some (Fulfilled [])\<rparr>) s evs"
proof (intro conjI impI)
  assume undefined: "getAlternatives p = None"
  show "getAlternativesAsync p s = (Fulfilled (), s)"
    using undefined by (rule getAlternativesAsync_undefined)
  show "\<exists>outs s'. run p initialState evs = Inr (outs, s') \<and> alternatives s' = []
      \<and> (\<forall>ns \<in> set outs. next_uid ns = '''')"
    using undefined by (intro run_initial_empty_pool) simp
  have same: "alternativesEffect p t = alternativesEffect (p\<lparr>getAlternatives := g\<rparr>) t"
    if "g = Some Rejected \<or> g = Some (Fulfilled [])" for g t
    using undefined that by (auto simp: alternativesEffect_def getAlternativesAsync_def)
  show "run p s evs = run (p\<lparr>getAlternatives := Some Rejected\<rparr>) s evs"
    by (rule run_props) (simp_all add: same)
  show "run p s evs = run (p\<lparr>getAlternatives := Some (Fulfilled [])\<rparr>) s evs"
    by (rule run_props) (simp_all add: same)
qed

theorem no_getAlternatives_no_fetch_witness:
  "getAlternatives \<lparr>dialogs = None, getAlternatives = None, length_prop = 3\<rparr> = None
   \<and> map_sum id (\<lambda>(outs, s'). (map next_uid outs, step s', alternatives s'))
       (run \<lparr>dialogs = None, getAlternatives = None, length_prop = 3\<rparr> initialState
          [AlternativesEffect, Submit ''A'' ''B'' 3, Submit ''A'' ''C'' 4, Submit ''D'' ''C'' 5])
       = Inr (['''', '''', ''''], 3, [])
   \<and> (\<exists>outs s'.
        run \<lparr>dialogs = None, getAlternatives = None, length_prop = 3\<rparr> initialState
          [AlternativesEffect, Submit ''A'' ''B'' 3, Submit ''A'' ''C'' 4, Submit ''D'' ''C'' 5]
          = Inr (outs, s')
        \<and> alternatives s' = [] \<and> list_all (\<lambda>ns. next_uid ns = '''') outs)"
  using no_getAlternatives_no_fetch
    [where p = "\<lparr>dialogs = None, getAlternatives = None, length_prop = 3\<rparr>"
       and s = initialState
       and evs = "[AlternativesEffect, Submit ''A'' ''B'' 3, Submit ''A'' ''C'' 4,
                   Submit ''D'' ''C'' 5]"]
  by (simp add: initialState_def afterSubmitCallback_def Let_def dialogConfigured_def
      alternativesEffect_def getAlternativesAsync_def)

end
